theory Spec2Isabelle
  imports Complex_Main "HOL-Library.Sublist" "HOL-Library.List_Lexorder" "HOL-Library.AList"
begin

section \<open>Python values\<close>

text \<open>
  A Python \<open>str\<close> is a sequence of Unicode code points; a code point is a natural
  number. ASCII literals of the source are written \<open>py ''...''\<close>. The comparison of
  two strings (\<open>sorted\<close>) is the lexicographic order on code points, which is the
  order of lists of naturals.
\<close>

type_synonym pystr = "nat list"

abbreviation py :: "string \<Rightarrow> pystr" where
  "py s \<equiv> map of_char s"

text \<open>The backslash, code point 92.\<close>

definition BACKSLASH :: nat where
  "BACKSLASH = 92"

text \<open>A \<open>dict\<close> keeps its keys in insertion order: an association list with distinct keys.
  \<open>d[k] = v\<close> is \<open>AList.update k v d\<close>, \<open>d.get(k)\<close> is \<open>map_of d k\<close>.\<close>

type_synonym 'v dict = "(pystr \<times> 'v) list"

subsection \<open>\<open>str.replace(old, new)\<close>\<close>

text \<open>Left to right, non-overlapping; with an empty \<open>old\<close> Python inserts \<open>new\<close>
  before every character and at the end.\<close>

function str_replace :: "pystr \<Rightarrow> pystr \<Rightarrow> pystr \<Rightarrow> pystr" where
  "str_replace old new [] = (if old = [] then new else [])"
| "str_replace old new (c # cs) =
     (if old = [] then new @ c # str_replace old new cs
      else if prefix old (c # cs)
        then new @ str_replace old new (drop (length old) (c # cs))
      else c # str_replace old new cs)"
  by pat_completeness auto
termination
  by (relation "measure (\<lambda>(old, new, s). length s)") auto

text \<open>\<open>sub in s\<close> on strings.\<close>

fun str_contains :: "pystr \<Rightarrow> pystr \<Rightarrow> bool" where
  "str_contains sub [] = (sub = [])"
| "str_contains sub (c # cs) = (prefix sub (c # cs) \<or> str_contains sub cs)"

subsection \<open>\<open>str.encode("utf-8")\<close>\<close>

text \<open>One to four bytes per code point; a lone surrogate (U+D800 to U+DFFF) has no
  UTF-8 encoding and Python raises \<open>UnicodeEncodeError\<close>.\<close>

definition is_surrogate :: "nat \<Rightarrow> bool" where
  "is_surrogate c = (0xD800 \<le> c \<and> c \<le> 0xDFFF)"

definition utf8_char :: "nat \<Rightarrow> nat list" where
  "utf8_char c =
     (if c < 0x80 then [c]
      else if c < 0x800 then [0xC0 + c div 64, 0x80 + c mod 64]
      else if c < 0x10000 then [0xE0 + c div 4096, 0x80 + (c div 64) mod 64, 0x80 + c mod 64]
      else [0xF0 + c div 262144, 0x80 + (c div 4096) mod 64,
            0x80 + (c div 64) mod 64, 0x80 + c mod 64])"

definition encode_utf8 :: "pystr \<Rightarrow> nat list option" where
  "encode_utf8 s = (if list_ex is_surrogate s then None else Some (concat (map utf8_char s)))"

section \<open>models.py\<close>

record HandoffLink =
  label :: pystr
  agent :: pystr
  prompt :: pystr
  send :: bool

record CommandMetadata =
  description :: pystr
  handoffs :: "HandoffLink list"

record CommandDefinition =
  name :: pystr
  file_path :: pystr
  metadata :: CommandMetadata
  content :: pystr
  has_arguments :: bool
  file_size :: nat
  last_modified :: real

definition MAX_INPUT_SIZE_BYTES :: nat where
  "MAX_INPUT_SIZE_BYTES = 102400"

section \<open>registry.py\<close>

text \<open>The state of a \<open>CommandRegistry\<close> is its dictionary \<open>_registry\<close>; every method
  runs under the registry's lock, so each is one state transition.\<close>

record CommandRegistry =
  registry :: "CommandDefinition dict"

definition register :: "CommandRegistry \<Rightarrow> CommandDefinition \<Rightarrow> CommandRegistry" where
  "register reg command = reg\<lparr>registry := AList.update (name command) command (registry reg)\<rparr>"

definition get :: "CommandRegistry \<Rightarrow> pystr \<Rightarrow> CommandDefinition option" where
  "get reg n = map_of (registry reg) n"

definition list_commands :: "CommandRegistry \<Rightarrow> pystr list" where
  "list_commands reg = sort (map fst (registry reg))"

definition update_all :: "CommandRegistry \<Rightarrow> CommandDefinition dict \<Rightarrow> CommandRegistry" where
  "update_all reg commands = reg\<lparr>registry := commands\<rparr>"

definition clear :: "CommandRegistry \<Rightarrow> CommandRegistry" where
  "clear reg = reg\<lparr>registry := []\<rparr>"

definition count :: "CommandRegistry \<Rightarrow> nat" where
  "count reg = length (registry reg)"

section \<open>handler.py\<close>

definition ARGUMENTS :: pystr where
  "ARGUMENTS = py ''$ARGUMENTS''"

text \<open>One attempt of the regular expression \<open>\$\{([^}]+)\}\<close> at the head of a string:
  the group and the text after the match. The greedy \<open>[^}]+\<close> takes every character
  up to the first \<open>}\<close>; it must take at least one, and the \<open>}\<close> must be there.\<close>

fun brace_match :: "pystr \<Rightarrow> (pystr \<times> pystr) option" where
  "brace_match (d # l # t) =
     (if d = of_char CHR ''$'' \<and> l = of_char CHR ''{'' then
        (let body = takeWhile (\<lambda>c. c \<noteq> of_char CHR ''}'') t;
             rest = dropWhile (\<lambda>c. c \<noteq> of_char CHR ''}'') t
         in if body \<noteq> [] \<and> rest \<noteq> [] then Some (body, tl rest) else None)
      else None)"
| "brace_match _ = None"

lemma brace_match_shorter: "brace_match s = Some (body, rest) \<Longrightarrow> length rest < length s"
proof (cases s rule: brace_match.cases)
  case (1 d l t)
  assume m: "brace_match s = Some (body, rest)"
  have "length (dropWhile (\<lambda>c. c \<noteq> of_char CHR ''}'') t) \<le> length t"
    by (rule length_dropWhile_le)
  with m 1 show ?thesis
    by (auto simp: Let_def split: if_splits)
qed simp_all

text \<open>\<open>re.sub(r"\$\{([^}]+)\}", r"\\${\1}", s)\<close>: matches are found left to right and do
  not overlap; each is replaced by a backslash, \<open>${\<close>, the group and \<open>}\<close>.\<close>

function re_sub_braces :: "pystr \<Rightarrow> pystr" where
  "re_sub_braces [] = []"
| "re_sub_braces (c # cs) =
     (case brace_match (c # cs) of
        Some (body, rest) \<Rightarrow> BACKSLASH # py ''${'' @ body @ py ''}'' @ re_sub_braces rest
      | None \<Rightarrow> c # re_sub_braces cs)"
  by pat_completeness auto
termination
  by (relation "measure length") (auto dest: brace_match_shorter)

definition sanitize_input :: "pystr \<Rightarrow> pystr" where
  "sanitize_input text =
     (let sanitized = str_replace ARGUMENTS (BACKSLASH # ARGUMENTS) text
      in re_sub_braces sanitized)"

datatype handler_error =
    CommandNotFoundError pystr "pystr list"
  | InputTooLargeError nat nat
  | UnicodeEncodeError

text \<open>\<open>process_prompt\<close>: the lookup, then the size check of a provided input, then the
  substitution. \<open>CommandNotFoundError(command_name, available)\<close> stores
  \<open>available or []\<close>, which is \<open>available\<close>.\<close>

definition process_prompt ::
  "CommandRegistry \<Rightarrow> pystr \<Rightarrow> pystr option \<Rightarrow> handler_error + pystr" where
  "process_prompt reg command_name user_input =
     (case get reg command_name of
        None \<Rightarrow> Inl (CommandNotFoundError command_name (list_commands reg))
      | Some cmd \<Rightarrow>
          (case user_input of
             None \<Rightarrow> Inr (content cmd)
           | Some u \<Rightarrow>
               (case encode_utf8 u of
                  None \<Rightarrow> Inl UnicodeEncodeError
                | Some bytes \<Rightarrow>
                    if length bytes > MAX_INPUT_SIZE_BYTES
                    then Inl (InputTooLargeError (length bytes) MAX_INPUT_SIZE_BYTES)
                    else if has_arguments cmd
                      then Inr (str_replace ARGUMENTS (sanitize_input u) (content cmd))
                    else Inr (content cmd))))"

section \<open>validators.py\<close>

text \<open>\<open>str.strip()\<close> removes the leading and trailing characters for which
  \<open>str.isspace\<close> holds.\<close>

definition isspace :: "nat \<Rightarrow> bool" where
  "isspace c = ((0x09 \<le> c \<and> c \<le> 0x0D) \<or> (0x1C \<le> c \<and> c \<le> 0x20) \<or> c = 0x85 \<or> c = 0xA0
     \<or> c = 0x1680 \<or> (0x2000 \<le> c \<and> c \<le> 0x200A) \<or> c = 0x2028 \<or> c = 0x2029
     \<or> c = 0x202F \<or> c = 0x205F \<or> c = 0x3000)"

definition strip :: "pystr \<Rightarrow> pystr" where
  "strip s = rev (dropWhile isspace (rev (dropWhile isspace s)))"

definition is_ascii_letter :: "nat \<Rightarrow> bool" where
  "is_ascii_letter c = ((of_char CHR ''a'' \<le> c \<and> c \<le> of_char CHR ''z'')
     \<or> (of_char CHR ''A'' \<le> c \<and> c \<le> of_char CHR ''Z''))"

definition is_ascii_digit :: "nat \<Rightarrow> bool" where
  "is_ascii_digit c = (of_char CHR ''0'' \<le> c \<and> c \<le> of_char CHR ''9'')"

text \<open>The character class \<open>[a-zA-Z0-9._-]\<close>.\<close>

definition is_name_char :: "nat \<Rightarrow> bool" where
  "is_name_char c = (is_ascii_letter c \<or> is_ascii_digit c \<or> c = of_char CHR ''.''
     \<or> c = of_char CHR ''_'' \<or> c = of_char CHR ''-'')"

text \<open>The whole string is a letter followed by name characters.\<close>

definition name_chars_only :: "pystr \<Rightarrow> bool" where
  "name_chars_only s = (case s of [] \<Rightarrow> False | c # cs \<Rightarrow> is_ascii_letter c \<and> list_all is_name_char cs)"

text \<open>\<open>COMMAND_NAME_PATTERN.match(name)\<close> for \<open>^[a-zA-Z][a-zA-Z0-9._-]*$\<close>: without
  the MULTILINE flag \<open>$\<close> matches at the end of the string and also just before a
  newline that ends the string.\<close>

definition COMMAND_NAME_PATTERN_match :: "pystr \<Rightarrow> bool" where
  "COMMAND_NAME_PATTERN_match s =
     (name_chars_only s \<or> (s \<noteq> [] \<and> last s = 10 \<and> name_chars_only (butlast s)))"

datatype name_error = NameEmpty | NamePathSeparators | NameInvalidFormat pystr

definition validate_command_name :: "pystr \<Rightarrow> name_error + pystr" where
  "validate_command_name nm =
     (let nm = strip nm in
      if nm = [] then Inl NameEmpty
      else if of_char CHR ''/'' \<in> set nm \<or> BACKSLASH \<in> set nm then Inl NamePathSeparators
      else if \<not> COMMAND_NAME_PATTERN_match nm then Inl (NameInvalidFormat nm)
      else Inr nm)"


text \<open>The values a YAML front matter holds (the loader's dates, binaries and sets are left
  out). A mapping is a list of key and value pairs.\<close>

datatype yaml =
    YNone
  | YBool bool
  | YInt int
  | YFloat real
  | YStr pystr
  | YList "yaml list"
  | YDict "(yaml \<times> yaml) list"

type_synonym yaml_dict = "(yaml \<times> yaml) list"

text \<open>Truth value of a Python object, and \<open>type(x).__name__\<close>.\<close>

fun truthy :: "yaml \<Rightarrow> bool" where
  "truthy YNone = False"
| "truthy (YBool b) = b"
| "truthy (YInt i) = (i \<noteq> 0)"
| "truthy (YFloat x) = (x \<noteq> 0)"
| "truthy (YStr s) = (s \<noteq> [])"
| "truthy (YList xs) = (xs \<noteq> [])"
| "truthy (YDict d) = (d \<noteq> [])"

fun type_name :: "yaml \<Rightarrow> pystr" where
  "type_name YNone = py ''NoneType''"
| "type_name (YBool b) = py ''bool''"
| "type_name (YInt i) = py ''int''"
| "type_name (YFloat x) = py ''float''"
| "type_name (YStr s) = py ''str''"
| "type_name (YList xs) = py ''list''"
| "type_name (YDict d) = py ''dict''"

text \<open>Exceptions. The low-level ones are those of the libraries and of
  \<open>validate_command_name\<close>; \<open>CommandParseError\<close> carries the file path and the reason
  (the text of its message, as a value).\<close>

datatype low_exn =
    YAMLError pystr
  | ValueError name_error
  | TypeError
  | ValidationError
  | OSError pystr
  | OtherException pystr

datatype parse_reason =
    MissingDescription
  | DescriptionNotString pystr
  | DescriptionEmpty
  | HandoffsNotList pystr
  | HandoffNotObject nat pystr
  | HandoffMissingField nat pystr
  | HandoffFieldNotNonEmptyString pystr nat
  | HandoffSendNotBoolean nat
  | YAMLParsingError pystr
  | UnexpectedError low_exn

datatype exn =
    CommandParseError pystr parse_reason
  | Raw low_exn

text \<open>The checks of one handoff: the three required fields in order, then \<open>send\<close>.\<close>

fun validate_handoff_fields :: "pystr \<Rightarrow> nat \<Rightarrow> yaml_dict \<Rightarrow> pystr list \<Rightarrow> exn + unit" where
  "validate_handoff_fields fp i handoff [] = Inr ()"
| "validate_handoff_fields fp i handoff (field # flds) =
     (case map_of handoff (YStr field) of
        None \<Rightarrow> Inl (CommandParseError fp (HandoffMissingField i field))
      | Some v \<Rightarrow>
          (case v of
             YStr s \<Rightarrow>
               if strip s = [] then Inl (CommandParseError fp (HandoffFieldNotNonEmptyString field i))
               else validate_handoff_fields fp i handoff flds
           | _ \<Rightarrow> Inl (CommandParseError fp (HandoffFieldNotNonEmptyString field i))))"

fun validate_handoffs :: "pystr \<Rightarrow> nat \<Rightarrow> yaml list \<Rightarrow> exn + unit" where
  "validate_handoffs fp i [] = Inr ()"
| "validate_handoffs fp i (handoff # rest) =
     (case handoff of
        YDict d \<Rightarrow>
          (case validate_handoff_fields fp i d [py ''label'', py ''agent'', py ''prompt''] of
             Inl e \<Rightarrow> Inl e
           | Inr u \<Rightarrow>
               (case map_of d (YStr (py ''send'')) of
                  None \<Rightarrow> validate_handoffs fp (Suc i) rest
                | Some (YBool b) \<Rightarrow> validate_handoffs fp (Suc i) rest
                | Some v \<Rightarrow> Inl (CommandParseError fp (HandoffSendNotBoolean i))))
      | other \<Rightarrow> Inl (CommandParseError fp (HandoffNotObject i (type_name other))))"

text \<open>\<open>validate_yaml_frontmatter\<close>. The loop \<open>enumerate(handoffs)\<close> runs over the
  entries of a list; an empty string or mapping passes the list check as falsy and yields
  nothing; \<open>None\<close>, \<open>False\<close> and zero are falsy too and are not iterable, which is a
  \<open>TypeError\<close>.\<close>

definition validate_yaml_frontmatter :: "yaml_dict \<Rightarrow> pystr \<Rightarrow> exn + yaml_dict" where
  "validate_yaml_frontmatter frontmatter fp =
     (case map_of frontmatter (YStr (py ''description'')) of
        None \<Rightarrow> Inl (CommandParseError fp MissingDescription)
      | Some YNone \<Rightarrow> Inl (CommandParseError fp MissingDescription)
      | Some (YStr d) \<Rightarrow>
          if strip d = [] then Inl (CommandParseError fp DescriptionEmpty)
          else
            (let handoffs = (case map_of frontmatter (YStr (py ''handoffs'')) of
                               None \<Rightarrow> YList [] | Some h \<Rightarrow> h)
             in case handoffs of
                  YList hs \<Rightarrow>
                    (case validate_handoffs fp 0 hs of
                       Inl e \<Rightarrow> Inl e
                     | Inr u \<Rightarrow> Inr frontmatter)
                | other \<Rightarrow>
                    if truthy other
                    then Inl (CommandParseError fp (HandoffsNotList (type_name other)))
                    else (case other of
                            YStr s \<Rightarrow> Inr frontmatter
                          | YDict d \<Rightarrow> Inr frontmatter
                          | _ \<Rightarrow> Inl (Raw TypeError)))
      | Some other \<Rightarrow> Inl (CommandParseError fp (DescriptionNotString (type_name other))))"

section \<open>loader.py\<close>

text \<open>A \<open>Path\<close> is its string. \<open>Path.name\<close> is the part after the last separator;
  \<open>Path.stem\<close> drops the last suffix, which starts at the last dot of the name unless
  that dot is the first or the last character.\<close>

definition path_name :: "pystr \<Rightarrow> pystr" where
  "path_name p = rev (takeWhile (\<lambda>c. c \<noteq> of_char CHR ''/'') (rev p))"

definition path_stem :: "pystr \<Rightarrow> pystr" where
  "path_stem p =
     (let nm = path_name p in
      if of_char CHR ''.'' \<in> set nm then
        (let i = length nm - 1 - length (takeWhile (\<lambda>c. c \<noteq> of_char CHR ''.'') (rev nm))
         in if 0 < i \<and> i < length nm - 1 then take i nm else nm)
      else nm)"

text \<open>What the loader reads from outside the repository: the listing of the directory,
  the front matter library, the construction of the validated metadata model, the file
  status and the absolute path. A directory state, for the loader, is one such record.
  Each library call returns its value or raises an exception (a subclass of
  \<open>Exception\<close>).\<close>

record loader_env =
  glob_md :: "pystr list"
  frontmatter_load :: "pystr \<Rightarrow> low_exn + (yaml_dict \<times> pystr)"
  CommandMetadata_init :: "yaml_dict \<Rightarrow> low_exn + CommandMetadata"
  stat :: "pystr \<Rightarrow> low_exn + (nat \<times> real)"
  absolute :: "pystr \<Rightarrow> pystr"

text \<open>The field validator of \<open>CommandDefinition.name\<close> in models.py: the same checks
  once more; its block on \<open>..\<close> only passes.\<close>

definition CommandDefinition_validate_command_name :: "pystr \<Rightarrow> name_error + pystr" where
  "CommandDefinition_validate_command_name v =
     (let v = strip v in
      if v = [] then Inl NameEmpty
      else if of_char CHR ''/'' \<in> set v \<or> BACKSLASH \<in> set v then Inl NamePathSeparators
      else if \<not> COMMAND_NAME_PATTERN_match v then Inl (NameInvalidFormat v)
      else Inr v)"

text \<open>The construction \<open>CommandDefinition(...)\<close>: the declared constraints
  (\<open>min_length=1\<close> on name and path; the size is a natural number), then the validator
  of the name, whose result is stored.\<close>

definition CommandDefinition_init ::
  "pystr \<Rightarrow> pystr \<Rightarrow> CommandMetadata \<Rightarrow> pystr \<Rightarrow> bool \<Rightarrow> nat \<Rightarrow> real \<Rightarrow> low_exn + CommandDefinition" where
  "CommandDefinition_init nm fp md ct ha sz lm =
     (if nm = [] \<or> fp = [] then Inl ValidationError
      else case CommandDefinition_validate_command_name nm of
             Inl e \<Rightarrow> Inl ValidationError
           | Inr v \<Rightarrow> Inr \<lparr>name = v, file_path = fp, metadata = md, content = ct,
                          has_arguments = ha, file_size = sz, last_modified = lm\<rparr>)"

definition discover_commands :: "loader_env \<Rightarrow> pystr list" where
  "discover_commands env = glob_md env"

text \<open>The body of the \<open>try\<close> in \<open>parse_command_file\<close>, statement by statement; the first
  exception ends it.\<close>

definition parse_command_file_body :: "loader_env \<Rightarrow> pystr \<Rightarrow> exn + CommandDefinition" where
  "parse_command_file_body env fp =
     (case frontmatter_load env fp of
        Inl e \<Rightarrow> Inl (Raw e)
      | Inr (frontmatter_data, ct) \<Rightarrow>
     (case validate_yaml_frontmatter frontmatter_data fp of
        Inl e \<Rightarrow> Inl e
      | Inr validated_frontmatter \<Rightarrow>
     (case CommandMetadata_init env validated_frontmatter of
        Inl e \<Rightarrow> Inl (Raw e)
      | Inr md \<Rightarrow>
     (case validate_command_name (path_stem fp) of
        Inl e \<Rightarrow> Inl (Raw (ValueError e))
      | Inr command_name \<Rightarrow>
     (let ha = str_contains ARGUMENTS ct in
      case stat env fp of
        Inl e \<Rightarrow> Inl (Raw e)
      | Inr (sz, mtime) \<Rightarrow>
     (case CommandDefinition_init command_name (absolute env fp) md ct ha sz mtime of
        Inl e \<Rightarrow> Inl (Raw e)
      | Inr defn \<Rightarrow> Inr defn))))))"

text \<open>The three \<open>except\<close> clauses: a \<open>CommandParseError\<close> is raised again as it is, a
  \<open>YAMLError\<close> and every other exception become a \<open>CommandParseError\<close>.\<close>

definition parse_command_file :: "loader_env \<Rightarrow> pystr \<Rightarrow> exn + CommandDefinition" where
  "parse_command_file env fp =
     (case parse_command_file_body env fp of
        Inr defn \<Rightarrow> Inr defn
      | Inl (CommandParseError f r) \<Rightarrow> Inl (CommandParseError f r)
      | Inl (Raw (YAMLError m)) \<Rightarrow> Inl (CommandParseError fp (YAMLParsingError m))
      | Inl (Raw e) \<Rightarrow> Inl (CommandParseError fp (UnexpectedError e)))"

text \<open>The loop of \<open>load_all_commands\<close>, with the dictionary built so far and the
  warnings logged so far (the paths of the skipped files). Only a \<open>CommandParseError\<close>
  is caught; any other exception would leave the loop.\<close>

fun load_loop ::
  "loader_env \<Rightarrow> CommandDefinition dict \<Rightarrow> pystr list \<Rightarrow> pystr list
     \<Rightarrow> exn + (CommandDefinition dict \<times> pystr list)" where
  "load_loop env commands warnings [] = Inr (commands, warnings)"
| "load_loop env commands warnings (fp # rest) =
     (case parse_command_file env fp of
        Inr defn \<Rightarrow>
          load_loop env (AList.update (name defn) defn commands) warnings rest
      | Inl (CommandParseError f r) \<Rightarrow> load_loop env commands (warnings @ [fp]) rest
      | Inl (Raw e) \<Rightarrow> Inl (Raw e))"

definition load_all_commands :: "loader_env \<Rightarrow> exn + (CommandDefinition dict \<times> pystr list)" where
  "load_all_commands env = load_loop env [] [] (discover_commands env)"

text \<open>The records of the files that parse, in listing order, and the files that fail.\<close>

definition parsed_definitions :: "loader_env \<Rightarrow> CommandDefinition list" where
  "parsed_definitions env =
     List.map_filter (\<lambda>fp. case parse_command_file env fp of Inr d \<Rightarrow> Some d | Inl e \<Rightarrow> None)
       (discover_commands env)"

definition parse_fails :: "loader_env \<Rightarrow> pystr \<Rightarrow> bool" where
  "parse_fails env fp = (case parse_command_file env fp of Inr d \<Rightarrow> False | Inl e \<Rightarrow> True)"


section \<open>watcher.py\<close>

text \<open>
  The state of a \<open>CommandFileHandler\<close>. Times are the values of \<open>time.time()\<close>, taken
  as real numbers. \<open>timer\<close> is the deadline of the live \<open>threading.Timer\<close>, if there is
  one; \<open>calls\<close> lists the times at which \<open>reload_callback\<close> was invoked (an exception
  of the callback is caught and logged, so the handler goes on either way).
\<close>

record CommandFileHandler =
  debounce_seconds :: real
  last_reload_time :: real
  pending_reload :: bool
  timer :: "real option"
  calls :: "real list"


text \<open>\<open>_schedule_reload\<close> at time \<open>now\<close>: a live timer is cancelled and a new one is
  started, which fires \<open>debounce_seconds\<close> later.\<close>

definition schedule_reload :: "real \<Rightarrow> CommandFileHandler \<Rightarrow> CommandFileHandler" where
  "schedule_reload now h = h\<lparr>timer := Some (now + debounce_seconds h), pending_reload := True\<rparr>"


text \<open>\<open>_trigger_immediate_reload\<close>, with the value \<open>current_time\<close> of the clock.\<close>

definition trigger_immediate_reload :: "real \<Rightarrow> CommandFileHandler \<Rightarrow> CommandFileHandler" where
  "trigger_immediate_reload current_time h =
     (let time_since_last_reload = current_time - last_reload_time h in
      if time_since_last_reload \<ge> debounce_seconds h
      then h\<lparr>calls := calls h @ [current_time], last_reload_time := current_time,
             timer := None, pending_reload := False\<rparr>
      else schedule_reload current_time h)"

text \<open>The events of the watchdog library: their type, whether they are about a
  directory, and the path (\<open>_get_src_path\<close> gives it as a string).\<close>

datatype event_type = Created | Modified | Deleted | Moved

record fs_event =
  event_type :: event_type
  is_directory :: bool
  src_path :: pystr

text \<open>The three handlers, each with the clock reading \<open>now\<close> of its call to
  \<open>_trigger_immediate_reload\<close>: only a file whose path ends in \<open>.md\<close> triggers.\<close>

definition on_created :: "real \<Rightarrow> fs_event \<Rightarrow> CommandFileHandler \<Rightarrow> CommandFileHandler" where
  "on_created now event h =
     (if \<not> is_directory event \<and> suffix (py ''.md'') (src_path event)
      then trigger_immediate_reload now h else h)"

definition on_modified :: "real \<Rightarrow> fs_event \<Rightarrow> CommandFileHandler \<Rightarrow> CommandFileHandler" where
  "on_modified now event h =
     (if \<not> is_directory event \<and> suffix (py ''.md'') (src_path event)
      then trigger_immediate_reload now h else h)"

definition on_deleted :: "real \<Rightarrow> fs_event \<Rightarrow> CommandFileHandler \<Rightarrow> CommandFileHandler" where
  "on_deleted now event h =
     (if \<not> is_directory event \<and> suffix (py ''.md'') (src_path event)
      then trigger_immediate_reload now h else h)"

text \<open>The observer hands each event to the method of its type; the handler overrides
  these three and inherits methods that do nothing for the other types.\<close>

definition dispatch :: "real \<Rightarrow> fs_event \<Rightarrow> CommandFileHandler \<Rightarrow> CommandFileHandler" where
  "dispatch now event h =
     (case event_type event of
        Created \<Rightarrow> on_created now event h
      | Modified \<Rightarrow> on_modified now event h
      | Deleted \<Rightarrow> on_deleted now event h
      | Moved \<Rightarrow> h)"

text \<open>A qualifying event: the creation, modification or deletion of a \<open>.md\<close> file.\<close>

definition qualifying :: "fs_event \<Rightarrow> bool" where
  "qualifying event =
     (event_type event \<noteq> Moved \<and> \<not> is_directory event \<and> suffix (py ''.md'') (src_path event))"






section \<open>Threads on one registry\<close>

text \<open>
  The calls that threads make on a shared registry, and what each returns. Every method
  body runs inside \<open>with self._lock\<close>: a thread acquires the lock, runs the statements
  of the body one at a time, and releases the lock when it leaves the block. Any thread
  may take the next step; a thread that waits for the lock cannot.
\<close>

datatype registry_call =
    CallUpdateAll "CommandDefinition dict"
  | CallGet pystr
  | CallListCommands
  | CallCount

datatype registry_result =
    ReturnedNone
  | ReturnedGet "CommandDefinition option"
  | ReturnedList "pystr list"
  | ReturnedCount nat

text \<open>Where a thread stands: before the call, inside the block (\<open>update_all\<close> has read
  \<open>old_count\<close>, then has assigned \<open>_registry\<close>), holding its return value at the
  end of the block, and after the release.\<close>

datatype thread_pc =
    BeforeCall
  | InBlock
  | HasOldCount nat
  | HasReplaced nat
  | AtBlockEnd registry_result
  | Returned registry_result

record shared_state =
  shared_registry :: CommandRegistry
  lock_owner :: "nat option"
  pcs :: "thread_pc list"

definition initial_state :: "CommandRegistry \<Rightarrow> registry_call list \<Rightarrow> shared_state" where
  "initial_state reg calls_of =
     \<lparr>shared_registry = reg, lock_owner = None, pcs = map (\<lambda>c. BeforeCall) calls_of\<rparr>"

text \<open>One step of thread \<open>i\<close>, which runs the call \<open>calls_of ! i\<close>.\<close>

definition thread_step :: "registry_call list \<Rightarrow> nat \<Rightarrow> shared_state \<Rightarrow> shared_state" where
  "thread_step calls_of i s =
     (if i \<ge> length (pcs s) \<or> i \<ge> length calls_of then s
      else case pcs s ! i of
        BeforeCall \<Rightarrow>
          (if lock_owner s = None
           then s\<lparr>lock_owner := Some i, pcs := (pcs s)[i := InBlock]\<rparr>
           else s)
      | InBlock \<Rightarrow>
          (case calls_of ! i of
             CallUpdateAll commands \<Rightarrow>
               s\<lparr>pcs := (pcs s)[i := HasOldCount (count (shared_registry s))]\<rparr>
           | CallGet n \<Rightarrow>
               s\<lparr>pcs := (pcs s)[i := AtBlockEnd (ReturnedGet (get (shared_registry s) n))]\<rparr>
           | CallListCommands \<Rightarrow>
               s\<lparr>pcs := (pcs s)[i := AtBlockEnd (ReturnedList (list_commands (shared_registry s)))]\<rparr>
           | CallCount \<Rightarrow>
               s\<lparr>pcs := (pcs s)[i := AtBlockEnd (ReturnedCount (count (shared_registry s)))]\<rparr>)
      | HasOldCount old_count \<Rightarrow>
          (case calls_of ! i of
             CallUpdateAll commands \<Rightarrow>
               s\<lparr>shared_registry := update_all (shared_registry s) commands,
                 pcs := (pcs s)[i := HasReplaced old_count]\<rparr>
           | _ \<Rightarrow> s)
      | HasReplaced old_count \<Rightarrow>
          (case calls_of ! i of
             CallUpdateAll commands \<Rightarrow> s\<lparr>pcs := (pcs s)[i := AtBlockEnd ReturnedNone]\<rparr>
           | _ \<Rightarrow> s)
      | AtBlockEnd r \<Rightarrow> s\<lparr>lock_owner := None, pcs := (pcs s)[i := Returned r]\<rparr>
      | Returned r \<Rightarrow> s)"

text \<open>A schedule names the thread that takes each next step; every interleaving of the
  threads is the run of some schedule.\<close>

definition run_schedule :: "registry_call list \<Rightarrow> nat list \<Rightarrow> shared_state \<Rightarrow> shared_state" where
  "run_schedule calls_of schedule s = fold (thread_step calls_of) schedule s"

text \<open>What a call returns on a registry that holds one complete dictionary.\<close>

definition returns_on :: "registry_call \<Rightarrow> CommandDefinition dict \<Rightarrow> registry_result" where
  "returns_on c d =
     (case c of
        CallUpdateAll commands \<Rightarrow> ReturnedNone
      | CallGet n \<Rightarrow> ReturnedGet (map_of d n)
      | CallListCommands \<Rightarrow> ReturnedList (sort (map fst d))
      | CallCount \<Rightarrow> ReturnedCount (length d))"

text \<open>The complete dictionaries a run can install: the one it starts with and the
  arguments of the \<open>update_all\<close> calls.\<close>

fun installed :: "registry_call \<Rightarrow> CommandDefinition dict list" where
  "installed (CallUpdateAll commands) = [commands]"
| "installed _ = []"

definition snapshots :: "CommandRegistry \<Rightarrow> registry_call list \<Rightarrow> CommandDefinition dict list" where
  "snapshots reg calls_of = registry reg # concat (map installed calls_of)"

definition result_of :: "thread_pc \<Rightarrow> registry_result option" where
  "result_of pc = (case pc of AtBlockEnd r \<Rightarrow> Some r | Returned r \<Rightarrow> Some r | _ \<Rightarrow> None)"

definition observes_snapshots ::
  "CommandRegistry \<Rightarrow> registry_call list \<Rightarrow> shared_state \<Rightarrow> bool" where
  "observes_snapshots reg calls_of s =
     (length (pcs s) = length calls_of
      \<and> registry (shared_registry s) \<in> set (snapshots reg calls_of)
      \<and> (\<forall>i r. i < length calls_of \<and> result_of (pcs s ! i) = Some r
            \<longrightarrow> (\<exists>d \<in> set (snapshots reg calls_of). r = returns_on (calls_of ! i) d)))"


section \<open>The sanitizer as the specification words it\<close>




section \<open>Example objects\<close>

definition greet_command :: CommandDefinition where
  "greet_command = \<lparr>name = py ''greet'', file_path = py ''/commands/greet.md'',
     metadata = \<lparr>description = py ''Greets'', handoffs = []\<rparr>,
     content = py ''Use $ARGUMENTS'', has_arguments = True, file_size = 40, last_modified = 0\<rparr>"

definition about_command :: CommandDefinition where
  "about_command = \<lparr>name = py ''about'', file_path = py ''/commands/about.md'',
     metadata = \<lparr>description = py ''About'', handoffs = []\<rparr>,
     content = py ''Static text'', has_arguments = False, file_size = 30, last_modified = 0\<rparr>"

definition example_registry :: CommandRegistry where
  "example_registry = \<lparr>registry = [(py ''greet'', greet_command), (py ''about'', about_command)]\<rparr>"


definition example_frontmatter :: yaml_dict where
  "example_frontmatter = [(YStr (py ''description''), YStr (py ''x''))]"

definition example_env :: loader_env where
  "example_env = \<lparr>
     glob_md = [py ''/c/a.b.md'', py ''/c/bad.md'', py ''/c/1abc.md''],
     frontmatter_load = (\<lambda>fp. if fp = py ''/c/bad.md'' then Inr ([], py ''no front matter'')
                              else Inr (example_frontmatter, py ''Hello $ARGUMENTS'')),
     CommandMetadata_init = (\<lambda>fm. Inr \<lparr>description = py ''x'', handoffs = []\<rparr>),
     stat = (\<lambda>fp. Inr (30, 0)),
     absolute = (\<lambda>fp. fp)\<rparr>"

definition example_definition :: CommandDefinition where
  "example_definition = \<lparr>name = py ''a.b'', file_path = py ''/c/a.b.md'',
     metadata = \<lparr>description = py ''x'', handoffs = []\<rparr>,
     content = py ''Hello $ARGUMENTS'', has_arguments = True, file_size = 30, last_modified = 0\<rparr>"

definition collision_env :: loader_env where
  "collision_env = \<lparr>
     glob_md = [py ''/c/a.md'', py ''/c/a .md''],
     frontmatter_load = (\<lambda>fp. Inr (example_frontmatter, py ''Hello'')),
     CommandMetadata_init = (\<lambda>fm. Inr \<lparr>description = py ''x'', handoffs = []\<rparr>),
     stat = (\<lambda>fp. Inr (30, 0)),
     absolute = (\<lambda>fp. fp)\<rparr>"

definition collision_definition :: "pystr \<Rightarrow> CommandDefinition" where
  "collision_definition fp = \<lparr>name = py ''a'', file_path = fp,
     metadata = \<lparr>description = py ''x'', handoffs = []\<rparr>,
     content = py ''Hello'', has_arguments = False, file_size = 30, last_modified = 0\<rparr>"


definition example_calls :: "registry_call list" where
  "example_calls = [CallUpdateAll [(py ''about'', about_command)], CallGet (py ''greet''), CallListCommands]"

definition example_schedule :: "nat list" where
  "example_schedule = [1, 0, 1, 1, 0, 2, 0, 0, 0, 0, 2, 2, 2]"



section \<open>Verification of the handler\<close>

lemma prefix_append_cut:
  assumes "prefix p (xs @ z # zs)" "z \<notin> set (tl p)" "xs \<noteq> []"
  shows "prefix p xs"
proof -
  from assms(1) consider "prefix p xs" | us where "p = xs @ us" "prefix us (z # zs)"
    by (auto simp: prefix_append)
  then show ?thesis
  proof cases
    case 1 then show ?thesis .
  next
    case 2
    show ?thesis
    proof (cases us)
      case Nil with 2 show ?thesis by simp
    next
      case (Cons u us')
      with 2 have "u = z" by simp
      with 2 Cons assms(3) have "z \<in> set (tl p)" by (cases xs) auto
      with assms(2) show ?thesis by simp
    qed
  qed
qed

lemma prefix_append_iff_cut:
  "z \<notin> set (tl p) \<Longrightarrow> xs \<noteq> [] \<Longrightarrow> prefix p (xs @ z # zs) = prefix p xs"
  using prefix_append_cut[of p xs z zs] by (auto simp: prefix_append)

lemma str_replace_split:
  assumes "old \<noteq> []" "z \<notin> set (tl old)"
  shows "str_replace old new (xs @ z # zs) = str_replace old new xs @ str_replace old new (z # zs)"
proof (induction xs rule: length_induct)
  case (1 xs)
  show ?case
  proof (cases xs)
    case Nil
    with assms show ?thesis by simp
  next
    case (Cons c cs)
    have pe: "prefix old (xs @ z # zs) = prefix old xs"
    proof (rule prefix_append_iff_cut[OF assms(2)])
      show "xs \<noteq> []" using Cons by simp
    qed
    show ?thesis
    proof (cases "prefix old xs")
      case True
      then have le: "length old \<le> length xs" by (rule prefix_length_le)
      have sh: "length (drop (length old) xs) < length xs"
        using assms(1) Cons by simp
      have dr: "drop (length old) (xs @ z # zs) = drop (length old) xs @ z # zs"
        using le by simp
      have "str_replace old new (xs @ z # zs)
            = new @ str_replace old new (drop (length old) (xs @ z # zs))"
        using True pe assms(1) unfolding Cons by simp
      also have "\<dots> = new @ str_replace old new (drop (length old) xs @ z # zs)"
        by (simp only: dr)
      also have "\<dots> = new @ str_replace old new (drop (length old) xs) @ str_replace old new (z # zs)"
        using 1 sh by simp
      also have "\<dots> = str_replace old new xs @ str_replace old new (z # zs)"
        using True assms(1) Cons by simp
      finally show ?thesis .
    next
      case False
      with pe have "\<not> prefix old (c # cs @ z # zs)" using Cons by simp
      with False assms(1) Cons 1 show ?thesis by simp
    qed
  qed
qed

lemma str_replace_absent:
  "old \<noteq> [] \<Longrightarrow> \<not> str_contains old s \<Longrightarrow> str_replace old new s = s"
  by (induction s) auto

lemma str_replace_at:
  assumes "old \<noteq> []"
  shows "str_replace old new (old @ s) = new @ str_replace old new s"
  using assms by (cases old) simp_all

lemma str_replace_once:
  assumes "old \<noteq> []" "hd old \<notin> set (tl old)"
    "\<not> str_contains old pre" "\<not> str_contains old post"
  shows "str_replace old new (pre @ old @ post) = pre @ new @ post"
proof -
  obtain d ps where o: "old = d # ps" using assms(1) by (cases old) auto
  have "str_replace old new (pre @ old @ post)
        = str_replace old new pre @ str_replace old new (old @ post)"
    using str_replace_split[of old d new pre "ps @ post"] assms o by simp
  then show ?thesis
    using assms by (simp add: str_replace_at str_replace_absent)
qed

lemma ARGUMENTS_eq: "ARGUMENTS = 36 # [65, 82, 71, 85, 77, 69, 78, 84, 83]"
  by (simp add: ARGUMENTS_def)

lemma ARGUMENTS_facts:
  "ARGUMENTS \<noteq> []" "hd ARGUMENTS = 36" "36 \<notin> set (tl ARGUMENTS)"
  "125 \<notin> set (tl ARGUMENTS)" "125 \<notin> set ARGUMENTS" "length ARGUMENTS = 10"
  by (simp_all add: ARGUMENTS_eq)



























lemma encode_utf8_replicate:
  "\<not> is_surrogate c \<Longrightarrow> encode_utf8 (replicate k c) = Some (concat (replicate k (utf8_char c)))"
  by (simp add: encode_utf8_def list_ex_iff)

lemma length_concat_replicate: "length (concat (replicate k xs)) = k * length xs"
  by (induction k) simp_all

lemma encode_utf8_ascii:
  "encode_utf8 (replicate k (of_char CHR ''a'')) = Some (replicate k (of_char CHR ''a''))"
proof -
  have "concat (replicate k [97::nat]) = replicate k 97" by (induction k) simp_all
  then show ?thesis
    using encode_utf8_replicate[of 97 k] by (simp add: is_surrogate_def utf8_char_def)
qed

lemma process_prompt_found:
  "get reg n = Some cmd \<Longrightarrow> encode_utf8 u = Some b \<Longrightarrow>
   process_prompt reg n (Some u) =
     (if length b > MAX_INPUT_SIZE_BYTES then Inl (InputTooLargeError (length b) MAX_INPUT_SIZE_BYTES)
      else if has_arguments cmd then Inr (str_replace ARGUMENTS (sanitize_input u) (content cmd))
      else Inr (content cmd))"
  by (simp add: process_prompt_def del: str_replace.simps)

text \<open>
  Claim C6. For a registered command and a provided input, \<open>process_prompt\<close> fails with
  \<open>InputTooLargeError\<close> exactly when the input has a UTF-8 encoding of more than 102400
  bytes, and the error carries that byte count and the maximum 102400. 102400 bytes are
  accepted, 102401 are rejected with sizes 102401 and 102400; bytes are counted, not
  characters: 51201 characters of two bytes each (U+00E9) are rejected as 102402 bytes.
\<close>

theorem input_too_large_iff_utf8_size:
  assumes "get reg n = Some cmd"
  shows "((\<exists>sz mx. process_prompt reg n (Some u) = Inl (InputTooLargeError sz mx))
           \<longleftrightarrow> (\<exists>b. encode_utf8 u = Some b \<and> 102400 < length b))
       \<and> (\<forall>b. encode_utf8 u = Some b \<and> 102400 < length b \<longrightarrow>
             process_prompt reg n (Some u) = Inl (InputTooLargeError (length b) 102400))
       \<and> (\<exists>out. process_prompt reg n (Some (replicate 102400 (of_char CHR ''a''))) = Inr out)
       \<and> process_prompt reg n (Some (replicate 102401 (of_char CHR ''a'')))
           = Inl (InputTooLargeError 102401 102400)
       \<and> process_prompt reg n (Some (replicate 51201 233))
           = Inl (InputTooLargeError 102402 102400)"
proof (intro conjI)
  show "(\<exists>sz mx. process_prompt reg n (Some u) = Inl (InputTooLargeError sz mx))
           \<longleftrightarrow> (\<exists>b. encode_utf8 u = Some b \<and> 102400 < length b)"
    using assms
    by (cases "encode_utf8 u")
       (auto simp: process_prompt_def MAX_INPUT_SIZE_BYTES_def simp del: str_replace.simps)
  show "\<forall>b. encode_utf8 u = Some b \<and> 102400 < length b \<longrightarrow>
             process_prompt reg n (Some u) = Inl (InputTooLargeError (length b) 102400)"
    using assms by (simp add: process_prompt_def MAX_INPUT_SIZE_BYTES_def del: str_replace.simps)
  show "\<exists>out. process_prompt reg n (Some (replicate 102400 (of_char CHR ''a''))) = Inr out"
    using process_prompt_found[OF assms encode_utf8_ascii[of 102400]]
    by (simp add: MAX_INPUT_SIZE_BYTES_def del: str_replace.simps)
  show "process_prompt reg n (Some (replicate 102401 (of_char CHR ''a'')))
           = Inl (InputTooLargeError 102401 102400)"
    using process_prompt_found[OF assms encode_utf8_ascii[of 102401]]
    by (simp add: MAX_INPUT_SIZE_BYTES_def del: str_replace.simps)
  have "\<not> is_surrogate 233" by (simp add: is_surrogate_def)
  from process_prompt_found[OF assms encode_utf8_replicate[OF this, of 51201]]
  show "process_prompt reg n (Some (replicate 51201 233))
           = Inl (InputTooLargeError 102402 102400)"
    by (simp add: MAX_INPUT_SIZE_BYTES_def length_concat_replicate utf8_char_def
        del: str_replace.simps)
qed

lemma get_example_greet: "get example_registry (py ''greet'') = Some greet_command"
  by (simp add: get_def example_registry_def)

lemma get_example_about: "get example_registry (py ''about'') = Some about_command"
  by (simp add: get_def example_registry_def)

theorem input_too_large_iff_utf8_size_witness:
  "get example_registry (py ''greet'') = Some greet_command
   \<and> process_prompt example_registry (py ''greet'') (Some (replicate 102401 (of_char CHR ''a'')))
       = Inl (InputTooLargeError 102401 102400)"
  using input_too_large_iff_utf8_size[OF get_example_greet] get_example_greet by blast


lemma sanitize_input_example:
  "sanitize_input (py ''a $ARGUMENTS ${x$ARGUMENTS} ${a${b}'')
   = py ''a '' @ BACKSLASH # py ''$ARGUMENTS '' @ BACKSLASH # py ''${x'' @ BACKSLASH # py ''$ARGUMENTS} ''
     @ BACKSLASH # py ''${a${b}''"
  by (simp add: sanitize_input_def ARGUMENTS_def)


lemma sorted_list_commands: "sorted (list_commands reg)"
  by (simp add: list_commands_def)

lemma set_list_commands: "set (list_commands reg) = fst ` set (registry reg)"
  by (simp add: list_commands_def)

lemma length_list_commands: "length (list_commands reg) = count reg"
  by (simp add: list_commands_def count_def)

text \<open>
  Claim C8. For a name that is not in the registry, \<open>process_prompt\<close> fails with
  \<open>CommandNotFoundError\<close> carrying the name and \<open>list_commands\<close>, whatever the
  input: the sorted list of exactly the registered names, one entry per registered command.
\<close>

theorem command_not_found_lists_sorted_names:
  assumes "get reg n = None"
  shows "process_prompt reg n u = Inl (CommandNotFoundError n (list_commands reg))
       \<and> sorted (list_commands reg)
       \<and> set (list_commands reg) = fst ` set (registry reg)
       \<and> length (list_commands reg) = count reg"
  using assms
  by (simp add: process_prompt_def sorted_list_commands set_list_commands length_list_commands)

theorem command_not_found_lists_sorted_names_witness:
  "get example_registry (py ''missing'') = None
   \<and> process_prompt example_registry (py ''missing'') (Some (py ''x''))
       = Inl (CommandNotFoundError (py ''missing'') [py ''about'', py ''greet''])"
proof -
  have g: "get example_registry (py ''missing'') = None"
    by (simp add: get_def example_registry_def)
  have l: "list_commands example_registry = [py ''about'', py ''greet'']"
    by (simp add: list_commands_def example_registry_def)
  have p: "process_prompt example_registry (py ''missing'') (Some (py ''x''))
       = Inl (CommandNotFoundError (py ''missing'') (list_commands example_registry))"
    using command_not_found_lists_sorted_names[OF g] by blast
  show ?thesis using g p unfolding l by blast
qed

text \<open>
  Claim C2. For a registered command with \<open>has_arguments\<close> and a provided input whose
  UTF-8 encoding is within the size limit, \<open>process_prompt\<close> returns the body with
  \<open>$ARGUMENTS\<close> replaced by the sanitized input. For the body \<open>Use $ARGUMENTS\<close> and
  the input \<open>go to ${HOME} now\<close> the output is \<open>Use go to \${HOME} now\<close>; for a body
  with one occurrence of the token, the output is the text before it, the sanitized
  input, and the text after it.
\<close>

theorem process_prompt_substitutes_sanitized_input:
  assumes "get reg n = Some cmd" "has_arguments cmd"
    "encode_utf8 u = Some b" "length b \<le> MAX_INPUT_SIZE_BYTES"
  shows "process_prompt reg n (Some u) = Inr (str_replace ARGUMENTS (sanitize_input u) (content cmd))
       \<and> (content cmd = py ''Use $ARGUMENTS'' \<and> u = py ''go to ${HOME} now''
            \<longrightarrow> process_prompt reg n (Some u) = Inr (py ''Use go to '' @ BACKSLASH # py ''${HOME} now''))
       \<and> (\<forall>pre post. content cmd = pre @ ARGUMENTS @ post
              \<and> \<not> str_contains ARGUMENTS pre \<and> \<not> str_contains ARGUMENTS post
            \<longrightarrow> process_prompt reg n (Some u) = Inr (pre @ sanitize_input u @ post))"
proof -
  have p: "process_prompt reg n (Some u) = Inr (str_replace ARGUMENTS (sanitize_input u) (content cmd))"
    using process_prompt_found[OF assms(1,3)] assms(2,4) by (simp del: str_replace.simps)
  have e: "content cmd = py ''Use $ARGUMENTS'' \<and> u = py ''go to ${HOME} now''
       \<longrightarrow> str_replace ARGUMENTS (sanitize_input u) (content cmd)
           = py ''Use go to '' @ BACKSLASH # py ''${HOME} now''"
    by (simp add: sanitize_input_def ARGUMENTS_def)
  have o: "\<forall>pre post. content cmd = pre @ ARGUMENTS @ post
              \<and> \<not> str_contains ARGUMENTS pre \<and> \<not> str_contains ARGUMENTS post
            \<longrightarrow> str_replace ARGUMENTS (sanitize_input u) (content cmd) = pre @ sanitize_input u @ post"
    using str_replace_once[of ARGUMENTS _ _ "sanitize_input u"]
    by (simp add: ARGUMENTS_facts del: str_replace.simps)
  show ?thesis unfolding p using e o by blast
qed

lemma encode_utf8_ascii_text:
  "encode_utf8 (py ''go to ${HOME} now'') = Some (py ''go to ${HOME} now'')"
  by (simp add: encode_utf8_def is_surrogate_def utf8_char_def)

theorem process_prompt_substitutes_sanitized_input_witness:
  "get example_registry (py ''greet'') = Some greet_command \<and> has_arguments greet_command
   \<and> encode_utf8 (py ''go to ${HOME} now'') = Some (py ''go to ${HOME} now'')
   \<and> length (py ''go to ${HOME} now'') \<le> MAX_INPUT_SIZE_BYTES
   \<and> process_prompt example_registry (py ''greet'') (Some (py ''go to ${HOME} now''))
       = Inr (py ''Use go to '' @ BACKSLASH # py ''${HOME} now'')"
proof -
  have h: "has_arguments greet_command" by (simp add: greet_command_def)
  have l: "length (py ''go to ${HOME} now'') \<le> MAX_INPUT_SIZE_BYTES"
    by (simp add: MAX_INPUT_SIZE_BYTES_def)
  have c: "content greet_command = py ''Use $ARGUMENTS''" by (simp add: greet_command_def)
  from process_prompt_substitutes_sanitized_input[OF get_example_greet h encode_utf8_ascii_text l] c
  have "process_prompt example_registry (py ''greet'') (Some (py ''go to ${HOME} now''))
       = Inr (py ''Use go to '' @ BACKSLASH # py ''${HOME} now'')" by blast
  with get_example_greet h encode_utf8_ascii_text l show ?thesis by blast
qed

text \<open>
  Claim C5 as stated fails: the size check comes before the placeholder test, so a
  command without placeholder still rejects an input of 102401 bytes with
  \<open>InputTooLargeError\<close> instead of returning its body.
\<close>

theorem no_placeholder_oversized_input_counterexample:
  "get example_registry (py ''about'') = Some about_command
   \<and> \<not> has_arguments about_command
   \<and> \<not> str_contains ARGUMENTS (content about_command)
   \<and> process_prompt example_registry (py ''about'') (Some (replicate 102401 (of_char CHR ''a'')))
       = Inl (InputTooLargeError 102401 102400)
   \<and> process_prompt example_registry (py ''about'') (Some (replicate 102401 (of_char CHR ''a'')))
       \<noteq> Inr (content about_command)"
proof -
  have p: "process_prompt example_registry (py ''about'') (Some (replicate 102401 (of_char CHR ''a'')))
       = Inl (InputTooLargeError 102401 102400)"
    using process_prompt_found[OF get_example_about encode_utf8_ascii[of 102401]]
    by (simp add: MAX_INPUT_SIZE_BYTES_def del: str_replace.simps)
  have "\<not> has_arguments about_command" by (simp add: about_command_def)
  moreover have "\<not> str_contains ARGUMENTS (content about_command)"
    by (simp add: about_command_def ARGUMENTS_def)
  ultimately show ?thesis using p get_example_about by simp
qed

text \<open>
  Claim C5, amended. For a registered command without placeholder (\<open>has_arguments\<close>
  false, or a body that does not contain \<open>$ARGUMENTS\<close>), \<open>process_prompt\<close> returns
  the body unchanged for an absent input and for every input whose UTF-8 encoding has at
  most 102400 bytes.
\<close>

theorem no_placeholder_returns_body:
  assumes "get reg n = Some cmd"
    and "\<not> has_arguments cmd \<or> \<not> str_contains ARGUMENTS (content cmd)"
    and "u = None \<or> (\<exists>s b. u = Some s \<and> encode_utf8 s = Some b \<and> length b \<le> MAX_INPUT_SIZE_BYTES)"
  shows "process_prompt reg n u = Inr (content cmd)"
proof (cases u)
  case None
  with assms(1) show ?thesis by (simp add: process_prompt_def)
next
  case (Some s)
  with assms(3) obtain b where b: "encode_utf8 s = Some b" "length b \<le> MAX_INPUT_SIZE_BYTES"
    by auto
  have "has_arguments cmd \<Longrightarrow> str_replace ARGUMENTS (sanitize_input s) (content cmd) = content cmd"
    using assms(2) by (auto simp: str_replace_absent ARGUMENTS_facts simp del: str_replace.simps)
  then show ?thesis
    using process_prompt_found[OF assms(1) b(1)] b(2) Some by (auto simp del: str_replace.simps)
qed

theorem no_placeholder_returns_body_witness:
  "get example_registry (py ''about'') = Some about_command
   \<and> \<not> has_arguments about_command
   \<and> encode_utf8 (py ''go to ${HOME} now'') = Some (py ''go to ${HOME} now'')
   \<and> length (py ''go to ${HOME} now'') \<le> MAX_INPUT_SIZE_BYTES
   \<and> process_prompt example_registry (py ''about'') (Some (py ''go to ${HOME} now'')) = Inr (py ''Static text'')
   \<and> process_prompt example_registry (py ''about'') None = Inr (py ''Static text'')"
proof -
  have h: "\<not> has_arguments about_command" by (simp add: about_command_def)
  have l: "length (py ''go to ${HOME} now'') \<le> MAX_INPUT_SIZE_BYTES"
    by (simp add: MAX_INPUT_SIZE_BYTES_def)
  have c: "content about_command = py ''Static text''" by (simp add: about_command_def)
  have 1: "process_prompt example_registry (py ''about'') (Some (py ''go to ${HOME} now''))
        = Inr (content about_command)"
    using no_placeholder_returns_body[OF get_example_about, of "Some (py ''go to ${HOME} now'')"] h encode_utf8_ascii_text l
    by blast
  have 2: "process_prompt example_registry (py ''about'') None = Inr (content about_command)"
    using no_placeholder_returns_body[OF get_example_about, of None] h by blast
  from 1 2 c get_example_about h encode_utf8_ascii_text l show ?thesis by simp
qed

section \<open>Verification of the loader\<close>

lemma parse_command_file_raises_only_CommandParseError:
  "parse_command_file env fp \<noteq> Inl (Raw e)"
  by (simp add: parse_command_file_def split: sum.splits exn.splits low_exn.splits)

lemma load_loop_result:
  "load_loop env commands warnings fps =
     Inr (fold (\<lambda>d c. AList.update (name d) d c)
            (List.map_filter (\<lambda>fp. case parse_command_file env fp of Inr d \<Rightarrow> Some d | Inl e \<Rightarrow> None) fps)
            commands,
          warnings @ filter (parse_fails env) fps)"
proof (induction fps arbitrary: commands warnings)
  case Nil
  then show ?case by (simp add: map_filter_simps)
next
  case (Cons fp fps)
  show ?case
  proof (cases "parse_command_file env fp")
    case (Inr d)
    then show ?thesis using Cons by (simp add: map_filter_simps parse_fails_def)
  next
    case (Inl e)
    then obtain f r where "e = CommandParseError f r"
      using parse_command_file_raises_only_CommandParseError[of env fp] by (cases e) auto
    with Inl show ?thesis using Cons by (simp add: map_filter_simps parse_fails_def)
  qed
qed

lemma map_of_fold_update:
  "map_of (fold (\<lambda>d c. AList.update (name d) d c) ds c)
   = map_of c ++ map_of (rev (map (\<lambda>d. (name d, d)) ds))"
proof (induction ds rule: rev_induct)
  case Nil
  then show ?case by simp
next
  case (snoc d ds)
  then show ?case by (auto simp: update_conv' map_add_def fun_eq_iff)
qed

lemma distinct_fold_update:
  "distinct (map fst c) \<Longrightarrow> distinct (map fst (fold (\<lambda>d c. AList.update (name d) d c) ds c))"
  by (induction ds arbitrary: c) (simp_all add: distinct_update)

lemma keys_fold_update:
  "fst ` set (fold (\<lambda>d c. AList.update (name d) d c) ds c) = fst ` set c \<union> name ` set ds"
proof (induction ds arbitrary: c)
  case Nil
  then show ?case by simp
next
  case (Cons d ds)
  have "fst ` set (AList.update (name d) d c) = insert (name d) (fst ` set c)"
    using dom_update[of "name d" d c] by (simp add: dom_map_of_conv_image_fst)
  with Cons show ?case by auto
qed

lemma length_update_fresh:
  "k \<notin> fst ` set al \<Longrightarrow> length (AList.update k v al) = Suc (length al)"
  by (induction al) auto

lemma length_fold_update:
  "distinct (map name ds) \<Longrightarrow> name ` set ds \<inter> fst ` set c = {} \<Longrightarrow>
   length (fold (\<lambda>d c. AList.update (name d) d c) ds c) = length c + length ds"
proof (induction ds arbitrary: c)
  case Nil
  then show ?case by simp
next
  case (Cons d ds)
  have k: "fst ` set (AList.update (name d) d c) = insert (name d) (fst ` set c)"
    using dom_update[of "name d" d c] by (simp add: dom_map_of_conv_image_fst)
  have l: "length (AList.update (name d) d c) = Suc (length c)"
    using Cons.prems by (auto intro: length_update_fresh)
  have "name ` set ds \<inter> fst ` set (AList.update (name d) d c) = {}"
    using Cons.prems k by auto
  with Cons l show ?case by simp
qed

lemmas loader_eval_defs =
  parse_command_file_def parse_command_file_body_def validate_yaml_frontmatter_def
  validate_command_name_def CommandDefinition_init_def CommandDefinition_validate_command_name_def
  path_stem_def path_name_def strip_def isspace_def COMMAND_NAME_PATTERN_match_def
  name_chars_only_def is_ascii_letter_def is_ascii_digit_def is_name_char_def
  BACKSLASH_def ARGUMENTS_def Let_def

lemma path_stem_example: "path_stem (py ''/c/a.b.md'') = py ''a.b''"
  by (simp add: loader_eval_defs)
lemma path_stem_dotfile: "path_stem (py ''/c/.md'') = py ''.md''"
  by (simp add: loader_eval_defs)
lemma path_stem_trailing_space: "path_stem (py ''/c/a .md'') = py ''a ''"
  by (simp add: loader_eval_defs)
lemma validate_command_name_strips: "validate_command_name (py ''a '') = Inr (py ''a'')"
  by (simp add: loader_eval_defs)
lemma validate_command_name_digit: "validate_command_name (py ''1abc'') = Inl (NameInvalidFormat (py ''1abc''))"
  by (simp add: loader_eval_defs)
lemma validate_command_name_escape: "validate_command_name (py ''../escape'') = Inl NamePathSeparators"
  by (simp add: loader_eval_defs)

lemma parse_example_ok:
  "parse_command_file example_env (py ''/c/a.b.md'') = Inr example_definition"
  by (simp add: example_env_def example_frontmatter_def example_definition_def loader_eval_defs)

lemma parse_example_bad:
  "parse_command_file example_env (py ''/c/bad.md'')
   = Inl (CommandParseError (py ''/c/bad.md'') MissingDescription)"
  by (simp add: example_env_def example_frontmatter_def loader_eval_defs)

lemma parse_example_name:
  "parse_command_file example_env (py ''/c/1abc.md'')
   = Inl (CommandParseError (py ''/c/1abc.md'') (UnexpectedError (ValueError (NameInvalidFormat (py ''1abc'')))))"
  by (simp add: example_env_def example_frontmatter_def loader_eval_defs)

lemma parse_collision_1:
  "parse_command_file collision_env (py ''/c/a.md'') = Inr (collision_definition (py ''/c/a.md''))"
  by (simp add: collision_env_def example_frontmatter_def collision_definition_def loader_eval_defs)

lemma parse_collision_2:
  "parse_command_file collision_env (py ''/c/a .md'') = Inr (collision_definition (py ''/c/a .md''))"
  by (simp add: collision_env_def example_frontmatter_def collision_definition_def loader_eval_defs)

lemma discover_example:
  "discover_commands example_env = [py ''/c/a.b.md'', py ''/c/bad.md'', py ''/c/1abc.md'']"
  by (simp add: discover_commands_def example_env_def)

lemma discover_collision:
  "discover_commands collision_env = [py ''/c/a.md'', py ''/c/a .md'']"
  by (simp add: discover_commands_def collision_env_def)

lemma parsed_definitions_example: "parsed_definitions example_env = [example_definition]"
  by (simp only: parsed_definitions_def discover_example map_filter_simps
      parse_example_ok parse_example_bad parse_example_name sum.case option.case)

lemma parsed_definitions_collision:
  "parsed_definitions collision_env
   = [collision_definition (py ''/c/a.md''), collision_definition (py ''/c/a .md'')]"
  by (simp only: parsed_definitions_def discover_collision map_filter_simps
      parse_collision_1 parse_collision_2 sum.case option.case)

lemma name_collision_definition: "name (collision_definition fp) = py ''a''"
  by (simp add: collision_definition_def)

text \<open>
  Claim C7 as stated fails where two files yield the same name: \<open>a.md\<close> and
  \<open>a .md\<close> both parse (the name is stripped before validation), and the dictionary
  holds one record, that of the file listed last; the record of the other file is lost.
\<close>

theorem load_all_commands_name_collision_counterexample:
  "parse_command_file collision_env (py ''/c/a.md'') = Inr (collision_definition (py ''/c/a.md''))
   \<and> parse_command_file collision_env (py ''/c/a .md'') = Inr (collision_definition (py ''/c/a .md''))
   \<and> load_all_commands collision_env
       = Inr ([(py ''a'', collision_definition (py ''/c/a .md''))], [])
   \<and> collision_definition (py ''/c/a.md'') \<noteq> collision_definition (py ''/c/a .md'')"
proof -
  have "load_all_commands collision_env
       = Inr ([(py ''a'', collision_definition (py ''/c/a .md''))], [])"
    by (simp only: load_all_commands_def discover_collision load_loop.simps
        parse_collision_1 parse_collision_2 sum.case name_collision_definition)
       (simp add: name_collision_definition)
  moreover have "collision_definition (py ''/c/a.md'') \<noteq> collision_definition (py ''/c/a .md'')"
    by (simp add: collision_definition_def)
  ultimately show ?thesis using parse_collision_1 parse_collision_2 by simp
qed

text \<open>
  Claim C7, amended. For every directory state \<open>load_all_commands\<close> returns: no
  exception leaves it, and \<open>parse_command_file\<close> raises nothing but
  \<open>CommandParseError\<close>. The dictionary has exactly the names of the files that parse;
  under each name it holds the record of the last such file in listing order; every file
  that fails is skipped with a warning and stops no other file. When the names of the
  parsed files are distinct, the dictionary holds exactly one record per parsed file.
\<close>

theorem load_all_commands_skips_parse_failures:
  "\<exists>commands warnings.
     load_all_commands env = Inr (commands, warnings)
     \<and> (\<forall>fp e. parse_command_file env fp \<noteq> Inl (Raw e))
     \<and> distinct (map fst commands)
     \<and> fst ` set commands = name ` set (parsed_definitions env)
     \<and> map_of commands = map_of (rev (map (\<lambda>d. (name d, d)) (parsed_definitions env)))
     \<and> warnings = filter (parse_fails env) (discover_commands env)
     \<and> (distinct (map name (parsed_definitions env)) \<longrightarrow>
          length commands = length (parsed_definitions env)
          \<and> set commands = (\<lambda>d. (name d, d)) ` set (parsed_definitions env))"
proof -
  let ?ds = "parsed_definitions env"
  let ?c = "fold (\<lambda>d c. AList.update (name d) d c) ?ds []"
  have r: "load_all_commands env = Inr (?c, filter (parse_fails env) (discover_commands env))"
    by (simp add: load_all_commands_def load_loop_result parsed_definitions_def)
  have d: "distinct (map fst ?c)" by (rule distinct_fold_update) simp
  have k: "fst ` set ?c = name ` set ?ds" by (simp add: keys_fold_update)
  have m: "map_of ?c = map_of (rev (map (\<lambda>d. (name d, d)) ?ds))"
    by (simp add: map_of_fold_update)
  have u: "length ?c = length ?ds \<and> set ?c = (\<lambda>d. (name d, d)) ` set ?ds"
    if dn: "distinct (map name ?ds)"
  proof
    show "length ?c = length ?ds" using length_fold_update[OF dn, of "[]"] by simp
    have dr: "distinct (map fst (rev (map (\<lambda>d. (name d, d)) ?ds)))"
      using dn by (simp add: rev_map[symmetric] comp_def)
    have "set ?c = set (rev (map (\<lambda>d. (name d, d)) ?ds))"
      using map_of_inject_set[OF d dr] m by simp
    then show "set ?c = (\<lambda>d. (name d, d)) ` set ?ds" by simp
  qed
  have u': "distinct (map name ?ds) \<longrightarrow> length ?c = length ?ds \<and> set ?c = (\<lambda>d. (name d, d)) ` set ?ds"
    using u by blast
  show ?thesis
    by (intro exI[of _ ?c] exI[of _ "filter (parse_fails env) (discover_commands env)"] conjI)
       (rule r d k m u' refl allI parse_command_file_raises_only_CommandParseError)+
qed

lemma load_all_commands_example:
  "load_all_commands example_env
       = Inr ([(py ''a.b'', example_definition)], [py ''/c/bad.md'', py ''/c/1abc.md''])"
proof -
  have n: "name example_definition = py ''a.b''" by (simp add: example_definition_def)
  show ?thesis
    by (simp only: load_all_commands_def discover_example load_loop.simps
        parse_example_ok parse_example_bad parse_example_name sum.case exn.case n)
       simp
qed

theorem load_all_commands_skips_parse_failures_witness:
  "distinct (map name (parsed_definitions example_env))
   \<and> load_all_commands example_env
       = Inr ([(py ''a.b'', example_definition)], [py ''/c/bad.md'', py ''/c/1abc.md''])
   \<and> length [(py ''a.b'', example_definition)] = length (parsed_definitions example_env)"
proof -
  have dn: "distinct (map name (parsed_definitions example_env))"
    by (simp add: parsed_definitions_example)
  have "length [(py ''a.b'', example_definition)] = length (parsed_definitions example_env)"
    using load_all_commands_skips_parse_failures[of example_env] dn unfolding load_all_commands_example
    by (elim exE conjE) simp
  with dn load_all_commands_example show ?thesis by simp
qed

lemma load_all_commands_result:
  "load_all_commands env =
     Inr (fold (\<lambda>d c. AList.update (name d) d c) (parsed_definitions env) [],
          filter (parse_fails env) (discover_commands env))"
  by (simp add: load_all_commands_def load_loop_result parsed_definitions_def)

lemma strip_last_not_space: "strip s \<noteq> [] \<Longrightarrow> \<not> isspace (last (strip s))"
proof -
  assume ne: "strip s \<noteq> []"
  let ?xs = "dropWhile isspace (rev (dropWhile isspace s))"
  from ne have x: "?xs \<noteq> []" by (simp add: strip_def)
  then have "\<not> isspace (hd ?xs)" by (rule hd_dropWhile)
  moreover have "last (strip s) = hd ?xs" using x by (simp add: strip_def last_rev)
  ultimately show ?thesis by simp
qed

lemma name_char_not_space: "is_name_char c \<Longrightarrow> \<not> isspace c"
  by (auto simp: is_name_char_def is_ascii_letter_def is_ascii_digit_def isspace_def)

lemma letter_name_char: "is_ascii_letter c \<Longrightarrow> is_name_char c"
  by (simp add: is_name_char_def)

lemma name_chars_only_all: "name_chars_only s \<Longrightarrow> s \<noteq> [] \<and> is_ascii_letter (hd s) \<and> (\<forall>c\<in>set s. is_name_char c)"
  by (cases s) (auto simp: name_chars_only_def list_all_iff letter_name_char)

lemma pattern_match_stripped:
  assumes "COMMAND_NAME_PATTERN_match (strip s)"
  shows "name_chars_only (strip s)"
proof -
  have "strip s \<noteq> [] \<Longrightarrow> last (strip s) \<noteq> 10"
    using strip_last_not_space[of s] by (auto simp: isspace_def)
  with assms show ?thesis by (auto simp: COMMAND_NAME_PATTERN_match_def)
qed

lemma strip_name_chars_only: "name_chars_only s \<Longrightarrow> strip s = s"
proof -
  assume a: "name_chars_only s"
  then have ne: "s \<noteq> []" and h: "\<not> isspace (hd s)" and l: "\<not> isspace (last s)"
    using name_chars_only_all[of s] name_char_not_space by auto
  from ne h have 1: "dropWhile isspace s = s" by (cases s) auto
  from ne l have 2: "dropWhile isspace (rev s) = rev s"
    by (cases "rev s") (auto simp: last_rev[symmetric] hd_rev)
  show ?thesis by (simp add: strip_def 1 2)
qed

lemma validate_command_name_Inr:
  assumes "validate_command_name s = Inr n"
  shows "name_chars_only n \<and> of_char CHR ''/'' \<notin> set n \<and> BACKSLASH \<notin> set n"
proof -
  from assms have n: "n = strip s" and m: "COMMAND_NAME_PATTERN_match (strip s)"
    and sep: "of_char CHR ''/'' \<notin> set (strip s)" "BACKSLASH \<notin> set (strip s)"
    by (auto simp: validate_command_name_def Let_def split: if_splits)
  with pattern_match_stripped[OF m] show ?thesis by simp
qed

lemma validate_command_name_valid:
  assumes "name_chars_only n" "of_char CHR ''/'' \<notin> set n" "BACKSLASH \<notin> set n"
  shows "validate_command_name n = Inr n"
  using assms name_chars_only_all[of n]
  by (simp add: validate_command_name_def strip_name_chars_only COMMAND_NAME_PATTERN_match_def)

lemma CommandDefinition_validate_command_name_Inr:
  assumes "CommandDefinition_validate_command_name s = Inr n"
  shows "name_chars_only n \<and> of_char CHR ''/'' \<notin> set n \<and> BACKSLASH \<notin> set n"
proof -
  from assms have n: "n = strip s" and m: "COMMAND_NAME_PATTERN_match (strip s)"
    and sep: "of_char CHR ''/'' \<notin> set (strip s)" "BACKSLASH \<notin> set (strip s)"
    by (auto simp: CommandDefinition_validate_command_name_def Let_def split: if_splits)
  with pattern_match_stripped[OF m] show ?thesis by simp
qed

lemma parse_command_file_name:
  assumes "parse_command_file env fp = Inr d"
  shows "name_chars_only (name d) \<and> of_char CHR ''/'' \<notin> set (name d) \<and> BACKSLASH \<notin> set (name d)"
proof -
  from assms obtain nm fpa md ct ha sz lm where
    "CommandDefinition_init nm fpa md ct ha sz lm = Inr d"
    by (auto simp: parse_command_file_def parse_command_file_body_def Let_def
        split: sum.splits prod.splits exn.splits low_exn.splits)
  then obtain v where "CommandDefinition_validate_command_name nm = Inr v" "name d = v"
    by (auto simp: CommandDefinition_init_def split: if_splits sum.splits)
  then show ?thesis using CommandDefinition_validate_command_name_Inr by simp
qed

lemma in_set_map_filter:
  "y \<in> set (List.map_filter f xs) \<longleftrightarrow> (\<exists>x \<in> set xs. f x = Some y)"
  by (induction xs) (auto simp: map_filter_simps split: option.splits)

lemma parsed_definitions_parse:
  "d \<in> set (parsed_definitions env) \<Longrightarrow> \<exists>fp \<in> set (discover_commands env). parse_command_file env fp = Inr d"
proof -
  assume "d \<in> set (parsed_definitions env)"
  then obtain fp where fp: "fp \<in> set (discover_commands env)"
    and c: "(case parse_command_file env fp of Inr d \<Rightarrow> Some d | Inl e \<Rightarrow> None) = Some d"
    by (auto simp: parsed_definitions_def in_set_map_filter)
  from c have "parse_command_file env fp = Inr d"
    by (cases "parse_command_file env fp") simp_all
  with fp show ?thesis by blast
qed

lemma load_all_commands_entry:
  assumes "load_all_commands env = Inr (commands, warnings)" "(k, d) \<in> set commands"
  shows "k = name d \<and> d \<in> set (parsed_definitions env)"
proof -
  let ?ds = "parsed_definitions env"
  from assms(1) have c: "commands = fold (\<lambda>d c. AList.update (name d) d c) ?ds []"
    by (simp add: load_all_commands_result)
  have "distinct (map fst commands)" unfolding c by (rule distinct_fold_update) simp
  with assms(2) have "map_of commands k = Some d" by simp
  then have "map_of (rev (map (\<lambda>d. (name d, d)) ?ds)) k = Some d"
    by (simp add: c map_of_fold_update)
  then have "(k, d) \<in> set (rev (map (\<lambda>d. (name d, d)) ?ds))" by (rule map_of_SomeD)
  then show ?thesis by auto
qed

text \<open>
  Claim C10. Every key of the dictionary that \<open>load_all_commands\<close> returns is the name
  of its record; it starts with a letter, has only letters, digits, dots, underscores
  and hyphens, has no path separator, and is accepted unchanged by
  \<open>validate_command_name\<close>. So is every name that the registry lists or finds after
  \<open>update_all\<close> with that dictionary.
\<close>

theorem loaded_names_satisfy_pattern:
  assumes "load_all_commands env = Inr (commands, warnings)"
  shows "(\<forall>(k, d) \<in> set commands.
            k = name d \<and> k \<noteq> [] \<and> is_ascii_letter (hd k)
            \<and> (\<forall>c \<in> set k. is_ascii_letter c \<or> is_ascii_digit c \<or> c = of_char CHR ''.''
                  \<or> c = of_char CHR ''_'' \<or> c = of_char CHR ''-'')
            \<and> of_char CHR ''/'' \<notin> set k \<and> BACKSLASH \<notin> set k
            \<and> validate_command_name k = Inr k)
       \<and> (\<forall>n \<in> set (list_commands (update_all reg commands)). validate_command_name n = Inr n)
       \<and> (\<forall>n d. get (update_all reg commands) n = Some d \<longrightarrow> name d = n \<and> validate_command_name n = Inr n)"
proof -
  have e: "k = name d \<and> name_chars_only k \<and> of_char CHR ''/'' \<notin> set k \<and> BACKSLASH \<notin> set k"
    if "(k, d) \<in> set commands" for k d
  proof -
    from load_all_commands_entry[OF assms that] have k: "k = name d" and "d \<in> set (parsed_definitions env)"
      by simp_all
    then obtain fp where "parse_command_file env fp = Inr d"
      using parsed_definitions_parse by blast
    from parse_command_file_name[OF this] k show ?thesis by simp
  qed
  have 1: "\<forall>(k, d) \<in> set commands.
            k = name d \<and> k \<noteq> [] \<and> is_ascii_letter (hd k)
            \<and> (\<forall>c \<in> set k. is_ascii_letter c \<or> is_ascii_digit c \<or> c = of_char CHR ''.''
                  \<or> c = of_char CHR ''_'' \<or> c = of_char CHR ''-'')
            \<and> of_char CHR ''/'' \<notin> set k \<and> BACKSLASH \<notin> set k
            \<and> validate_command_name k = Inr k"
  proof (intro ballI, clarify)
    fix k d assume kd: "(k, d) \<in> set commands"
    from e[OF kd] have k: "k = name d" and nc: "name_chars_only k"
      and s: "of_char CHR ''/'' \<notin> set k" "BACKSLASH \<notin> set k" by auto
    from name_chars_only_all[OF nc] have "k \<noteq> []" "is_ascii_letter (hd k)"
      and "\<forall>c\<in>set k. is_name_char c" by simp_all
    then show "k = name d \<and> k \<noteq> [] \<and> is_ascii_letter (hd k)
            \<and> (\<forall>c \<in> set k. is_ascii_letter c \<or> is_ascii_digit c \<or> c = of_char CHR ''.''
                  \<or> c = of_char CHR ''_'' \<or> c = of_char CHR ''-'')
            \<and> of_char CHR ''/'' \<notin> set k \<and> BACKSLASH \<notin> set k
            \<and> validate_command_name k = Inr k"
      using k s validate_command_name_valid[OF nc s] by (simp add: is_name_char_def)
  qed
  have 2: "\<forall>n \<in> set (list_commands (update_all reg commands)). validate_command_name n = Inr n"
  proof
    fix n assume "n \<in> set (list_commands (update_all reg commands))"
    then obtain d where "(n, d) \<in> set commands"
      by (auto simp: list_commands_def update_all_def)
    from e[OF this] show "validate_command_name n = Inr n"
      using validate_command_name_valid[of n] by blast
  qed
  have 3: "\<forall>n d. get (update_all reg commands) n = Some d \<longrightarrow> name d = n \<and> validate_command_name n = Inr n"
  proof (intro allI impI)
    fix n d assume "get (update_all reg commands) n = Some d"
    then have "(n, d) \<in> set commands"
      by (auto simp: get_def update_all_def dest: map_of_SomeD)
    from e[OF this] show "name d = n \<and> validate_command_name n = Inr n"
      using validate_command_name_valid[of n] by blast
  qed
  from 1 2 3 show ?thesis by blast
qed

theorem loaded_names_satisfy_pattern_witness:
  "load_all_commands example_env
       = Inr ([(py ''a.b'', example_definition)], [py ''/c/bad.md'', py ''/c/1abc.md''])
   \<and> name example_definition = py ''a.b''
   \<and> validate_command_name (py ''a.b'') = Inr (py ''a.b'')
   \<and> is_ascii_letter (hd (py ''a.b''))"
proof -
  let ?cs = "[(py ''a.b'', example_definition)]"
  have m: "(py ''a.b'', example_definition) \<in> set ?cs" by simp
  from loaded_names_satisfy_pattern[OF load_all_commands_example, of undefined]
  have "\<forall>(k, d) \<in> set ?cs. k = name d \<and> k \<noteq> [] \<and> is_ascii_letter (hd k)
            \<and> (\<forall>c \<in> set k. is_ascii_letter c \<or> is_ascii_digit c \<or> c = of_char CHR ''.''
                  \<or> c = of_char CHR ''_'' \<or> c = of_char CHR ''-'')
            \<and> of_char CHR ''/'' \<notin> set k \<and> BACKSLASH \<notin> set k
            \<and> validate_command_name k = Inr k"
    by (rule conjunct1)
  with m have "py ''a.b'' = name example_definition \<and> is_ascii_letter (hd (py ''a.b''))
     \<and> validate_command_name (py ''a.b'') = Inr (py ''a.b'')"
    by blast
  with load_all_commands_example show ?thesis by metis
qed

section \<open>Verification of the watcher\<close>







lemma dispatch_ignored: "\<not> qualifying event \<Longrightarrow> dispatch now event h = h"
  by (cases "event_type event")
     (auto simp: qualifying_def dispatch_def on_created_def on_modified_def on_deleted_def)






section \<open>Verification of the registry under concurrent calls\<close>

lemma returns_on_registry:
  "returns_on (CallGet n) (registry r) = ReturnedGet (get r n)"
  "returns_on CallListCommands (registry r) = ReturnedList (list_commands r)"
  "returns_on CallCount (registry r) = ReturnedCount (count r)"
  "returns_on (CallUpdateAll c) d = ReturnedNone"
  by (simp_all add: returns_on_def get_def list_commands_def count_def)

lemma installed_in_snapshots:
  "i < length calls_of \<Longrightarrow> calls_of ! i = CallUpdateAll c \<Longrightarrow> c \<in> set (snapshots reg calls_of)"
proof -
  assume a: "i < length calls_of" "calls_of ! i = CallUpdateAll c"
  then have "CallUpdateAll c \<in> set calls_of" by (metis nth_mem)
  then have "c \<in> set (concat (map installed calls_of))" by force
  then show ?thesis by (simp add: snapshots_def)
qed

lemma observes_initial: "observes_snapshots reg calls_of (initial_state reg calls_of)"
  by (auto simp: observes_snapshots_def initial_state_def snapshots_def result_of_def)

lemma observes_update:
  assumes inv: "observes_snapshots reg calls_of s" and i: "i < length calls_of"
    and new: "result_of pc = None \<or> (\<exists>d \<in> set (snapshots reg calls_of). result_of pc = Some (returns_on (calls_of ! i) d))"
    and r: "registry (shared_registry s') \<in> set (snapshots reg calls_of)"
    and p: "pcs s' = (pcs s)[i := pc]"
  shows "observes_snapshots reg calls_of s'"
  unfolding observes_snapshots_def
proof (intro conjI allI impI)
  show "length (pcs s') = length calls_of" using inv p by (simp add: observes_snapshots_def)
  show "registry (shared_registry s') \<in> set (snapshots reg calls_of)" by (rule r)
  fix j rr assume a: "j < length calls_of \<and> result_of (pcs s' ! j) = Some rr"
  show "\<exists>d \<in> set (snapshots reg calls_of). rr = returns_on (calls_of ! j) d"
  proof (cases "j = i")
    case True
    have "i < length (pcs s)" using inv i by (simp add: observes_snapshots_def)
    with True a p have "result_of pc = Some rr" by simp
    with new True show ?thesis by auto
  next
    case False
    with a p have "result_of (pcs s ! j) = Some rr" by simp
    with a inv show ?thesis by (simp add: observes_snapshots_def)
  qed
qed

lemma observes_step:
  assumes inv: "observes_snapshots reg calls_of s"
  shows "observes_snapshots reg calls_of (thread_step calls_of i s)"
proof (cases "i \<ge> length (pcs s) \<or> i \<ge> length calls_of")
  case True
  then show ?thesis using inv by (simp add: thread_step_def)
next
  case False
  then have i: "i < length calls_of" "i < length (pcs s)" by simp_all
  have cur: "registry (shared_registry s) \<in> set (snapshots reg calls_of)"
    using inv by (simp add: observes_snapshots_def)
  have keep: "result_of (pcs s ! i) = Some r \<Longrightarrow>
       \<exists>d \<in> set (snapshots reg calls_of). r = returns_on (calls_of ! i) d" for r
    using inv i by (simp add: observes_snapshots_def)
  show ?thesis
  proof (cases "pcs s ! i")
    case BeforeCall
    show ?thesis
    proof (cases "lock_owner s = None")
      case True
      have "observes_snapshots reg calls_of (s\<lparr>lock_owner := Some i, pcs := (pcs s)[i := InBlock]\<rparr>)"
        by (rule observes_update[OF inv i(1), of InBlock]) (simp_all add: result_of_def cur)
      then show ?thesis using BeforeCall True False by (simp add: thread_step_def)
    next
      case n: False
      then show ?thesis using BeforeCall False inv by (auto simp: thread_step_def)
    qed
  next
    case InBlock
    show ?thesis
    proof (cases "calls_of ! i")
      case (CallUpdateAll c)
      have "observes_snapshots reg calls_of
              (s\<lparr>pcs := (pcs s)[i := HasOldCount (count (shared_registry s))]\<rparr>)"
        by (rule observes_update[OF inv i(1), of "HasOldCount (count (shared_registry s))"])
           (simp_all add: result_of_def cur)
      then show ?thesis using InBlock CallUpdateAll False by (simp add: thread_step_def)
    next
      case (CallGet n)
      let ?pc = "AtBlockEnd (ReturnedGet (get (shared_registry s) n))"
      have "observes_snapshots reg calls_of (s\<lparr>pcs := (pcs s)[i := ?pc]\<rparr>)"
        by (rule observes_update[OF inv i(1), of ?pc])
           (use cur CallGet in \<open>auto simp: result_of_def returns_on_registry[symmetric]\<close>)
      then show ?thesis using InBlock CallGet False by (simp add: thread_step_def)
    next
      case CallListCommands
      let ?pc = "AtBlockEnd (ReturnedList (list_commands (shared_registry s)))"
      have "observes_snapshots reg calls_of (s\<lparr>pcs := (pcs s)[i := ?pc]\<rparr>)"
        by (rule observes_update[OF inv i(1), of ?pc])
           (use cur CallListCommands in \<open>auto simp: result_of_def returns_on_registry[symmetric]\<close>)
      then show ?thesis using InBlock CallListCommands False by (simp add: thread_step_def)
    next
      case CallCount
      let ?pc = "AtBlockEnd (ReturnedCount (count (shared_registry s)))"
      have "observes_snapshots reg calls_of (s\<lparr>pcs := (pcs s)[i := ?pc]\<rparr>)"
        by (rule observes_update[OF inv i(1), of ?pc])
           (use cur CallCount in \<open>auto simp: result_of_def returns_on_registry[symmetric]\<close>)
      then show ?thesis using InBlock CallCount False by (simp add: thread_step_def)
    qed
  next
    case (HasOldCount k)
    show ?thesis
    proof (cases "calls_of ! i")
      case (CallUpdateAll c)
      let ?s = "s\<lparr>shared_registry := update_all (shared_registry s) c,
                 pcs := (pcs s)[i := HasReplaced k]\<rparr>"
      have "c \<in> set (snapshots reg calls_of)"
        by (rule installed_in_snapshots[OF i(1) CallUpdateAll])
      then have "observes_snapshots reg calls_of ?s"
        by (intro observes_update[OF inv i(1), of "HasReplaced k"])
           (simp_all add: result_of_def update_all_def)
      then show ?thesis using HasOldCount CallUpdateAll False by (simp add: thread_step_def)
    qed (use HasOldCount False inv in \<open>simp_all add: thread_step_def\<close>)
  next
    case (HasReplaced k)
    show ?thesis
    proof (cases "calls_of ! i")
      case (CallUpdateAll c)
      have "observes_snapshots reg calls_of (s\<lparr>pcs := (pcs s)[i := AtBlockEnd ReturnedNone]\<rparr>)"
        by (rule observes_update[OF inv i(1), of "AtBlockEnd ReturnedNone"])
           (use cur CallUpdateAll in \<open>auto simp: result_of_def returns_on_registry\<close>)
      then show ?thesis using HasReplaced CallUpdateAll False by (simp add: thread_step_def)
    qed (use HasReplaced False inv in \<open>simp_all add: thread_step_def\<close>)
  next
    case (AtBlockEnd r)
    have "\<exists>d \<in> set (snapshots reg calls_of). r = returns_on (calls_of ! i) d"
      using keep[of r] AtBlockEnd by (simp add: result_of_def)
    then have "observes_snapshots reg calls_of (s\<lparr>lock_owner := None, pcs := (pcs s)[i := Returned r]\<rparr>)"
      by (intro observes_update[OF inv i(1), of "Returned r"]) (auto simp: result_of_def cur)
    then show ?thesis using AtBlockEnd False by (simp add: thread_step_def)
  next
    case (Returned r)
    then show ?thesis using False inv by (simp add: thread_step_def)
  qed
qed

lemma observes_run:
  "observes_snapshots reg calls_of s \<Longrightarrow> observes_snapshots reg calls_of (run_schedule calls_of schedule s)"
  unfolding run_schedule_def
  by (induction schedule arbitrary: s) (simp_all add: observes_step)

lemma example_run:
  "pcs (run_schedule example_calls example_schedule (initial_state example_registry example_calls))
   = [Returned ReturnedNone, Returned (ReturnedGet (Some greet_command)),
      Returned (ReturnedList [py ''about''])]"
  by (simp add: run_schedule_def example_schedule_def example_calls_def initial_state_def
      thread_step_def example_registry_def get_def list_commands_def count_def update_all_def)

text \<open>
  Claim C3. After \<open>update_all\<close> with a dictionary \<open>m\<close> the registry holds \<open>m\<close> and
  nothing else: \<open>get\<close> returns the record of \<open>m\<close> for a name in \<open>m\<close> and nothing for
  any other name, \<open>list_commands\<close> lists the names of \<open>m\<close>, \<open>count\<close> is its size (the
  number of its keys). Under
  every interleaving of threads that call \<open>update_all\<close>, \<open>get\<close>, \<open>list_commands\<close> and
  \<open>count\<close>, each value a call returns is its value on one complete dictionary: the
  one the registry started with or the argument of an \<open>update_all\<close>; with one
  \<open>update_all\<close> these are the old and the new dictionary, never a mix.
\<close>

theorem update_all_replaces_atomically:
  "get (update_all reg m) n = map_of m n
   \<and> (\<forall>d. distinct (map fst m) \<and> (n, d) \<in> set m \<longrightarrow> get (update_all reg m) n = Some d)
   \<and> (n \<notin> fst ` set m \<longrightarrow> get (update_all reg m) n = None)
   \<and> list_commands (update_all reg m) = sort (map fst m)
   \<and> count (update_all reg m) = length m
   \<and> (distinct (map fst m) \<longrightarrow> count (update_all reg m) = card (fst ` set m))
   \<and> (\<forall>i r. i < length calls_of
          \<and> result_of (pcs (run_schedule calls_of schedule (initial_state reg calls_of)) ! i) = Some r
        \<longrightarrow> (\<exists>d \<in> set (snapshots reg calls_of). r = returns_on (calls_of ! i) d))
   \<and> ((\<forall>c \<in> set readers. installed c = [])
        \<longrightarrow> snapshots reg (CallUpdateAll m # readers) = [registry reg, m])"
proof (intro conjI)
  show "get (update_all reg m) n = map_of m n" by (simp add: get_def update_all_def)
  show "\<forall>d. distinct (map fst m) \<and> (n, d) \<in> set m \<longrightarrow> get (update_all reg m) n = Some d"
    by (simp add: get_def update_all_def)
  show "n \<notin> fst ` set m \<longrightarrow> get (update_all reg m) n = None"
    by (simp add: get_def update_all_def map_of_eq_None_iff)
  show "list_commands (update_all reg m) = sort (map fst m)"
    by (simp add: list_commands_def update_all_def)
  show "count (update_all reg m) = length m" by (simp add: count_def update_all_def)
  show "distinct (map fst m) \<longrightarrow> count (update_all reg m) = card (fst ` set m)"
    using distinct_card[of "map fst m"] by (simp add: count_def update_all_def)
  have "observes_snapshots reg calls_of (run_schedule calls_of schedule (initial_state reg calls_of))"
    by (rule observes_run) (rule observes_initial)
  then show "\<forall>i r. i < length calls_of
          \<and> result_of (pcs (run_schedule calls_of schedule (initial_state reg calls_of)) ! i) = Some r
        \<longrightarrow> (\<exists>d \<in> set (snapshots reg calls_of). r = returns_on (calls_of ! i) d)"
    by (simp add: observes_snapshots_def)
  show "(\<forall>c \<in> set readers. installed c = [])
        \<longrightarrow> snapshots reg (CallUpdateAll m # readers) = [registry reg, m]"
    by (simp add: snapshots_def)
qed

theorem update_all_replaces_atomically_witness:
  "pcs (run_schedule example_calls example_schedule (initial_state example_registry example_calls))
   = [Returned ReturnedNone, Returned (ReturnedGet (Some greet_command)),
      Returned (ReturnedList [py ''about''])]
   \<and> (\<exists>d \<in> set (snapshots example_registry example_calls).
         ReturnedGet (Some greet_command) = returns_on (CallGet (py ''greet'')) d)
   \<and> snapshots example_registry example_calls
       = [registry example_registry, [(py ''about'', about_command)]]"
proof -
  let ?s = "run_schedule example_calls example_schedule (initial_state example_registry example_calls)"
  have i: "(1::nat) < length example_calls" by (simp add: example_calls_def)
  have r: "result_of (pcs ?s ! 1) = Some (ReturnedGet (Some greet_command))"
    by (simp add: example_run result_of_def)
  have c: "example_calls ! 1 = CallGet (py ''greet'')" by (simp add: example_calls_def)
  have rd: "\<forall>c \<in> set [CallGet (py ''greet''), CallListCommands]. installed c = []" by simp
  from update_all_replaces_atomically[of example_registry _ _ example_calls example_schedule]
  have "\<forall>i r. i < length example_calls \<and> result_of (pcs ?s ! i) = Some r
        \<longrightarrow> (\<exists>d \<in> set (snapshots example_registry example_calls). r = returns_on (example_calls ! i) d)"
    by blast
  with i r have "\<exists>d \<in> set (snapshots example_registry example_calls).
         ReturnedGet (Some greet_command) = returns_on (example_calls ! 1) d"
    by blast
  then have 1: "\<exists>d \<in> set (snapshots example_registry example_calls).
         ReturnedGet (Some greet_command) = returns_on (CallGet (py ''greet'')) d"
    unfolding c .
  have 2: "snapshots example_registry example_calls
       = [registry example_registry, [(py ''about'', about_command)]]"
    by (simp add: snapshots_def example_calls_def)
  from example_run 1 2 show ?thesis by blast
qed

end
